theory Spec2Isabelle
  imports Complex_Main
begin

section \<open>Numbers and slices\<close>

text \<open>
  A frame is Go's \<^verbatim>\<open>[2]float64\<close>: the left and the right channel. The samples that the
  decoder delivers are finite numbers, so a sample is a \<^typ>\<open>real\<close>; every operation on
  them is read as the exact operation on reals, rounding is not part of this model. What
  is proved below of the numbers that a transform computes is therefore which operations
  it applies to which frames, and its value on silence; how far a rounded float64 result
  lies from the exact one is not stated here.
  The two results that \<^verbatim>\<open>main.go\<close> computes by a division whose divisor can be zero are
  values of \<open>float64\<close>, which keeps the outcomes of IEEE division by zero apart.
\<close>

type_synonym frame = "real \<times> real"

datatype float64 = Fin real | PInf | NInf | NaN

text \<open>\<^verbatim>\<open>x / y\<close> on two finite float64 values: \<^verbatim>\<open>0/0\<close> is NaN, \<^verbatim>\<open>x/0\<close> an infinity.\<close>

definition fdiv :: "real \<Rightarrow> real \<Rightarrow> float64" where
  "fdiv x y =
     (if y \<noteq> 0 then Fin (x / y)
      else if x = 0 then NaN
      else if 0 < x then PInf else NInf)"

text \<open>\<^verbatim>\<open>math.Sqrt\<close>: NaN for a negative argument and for NaN, +Inf for +Inf.\<close>

fun fsqrt :: "float64 \<Rightarrow> float64" where
  "fsqrt (Fin x) = (if x < 0 then NaN else Fin (sqrt x))"
| "fsqrt PInf = PInf"
| "fsqrt NInf = NaN"
| "fsqrt NaN = NaN"

text \<open>
  Go's builtin \<^verbatim>\<open>copy(dst, src)\<close> overwrites the first \<open>min (len dst) (len src)\<close>
  elements of \<open>dst\<close> and leaves its length alone.
\<close>

definition copy :: "'a list \<Rightarrow> 'a list \<Rightarrow> 'a list" where
  "copy dst src = take (length dst) src @ drop (length src) dst"

text \<open>
  \<^verbatim>\<open>fft.FFT\<close> belongs to the library \<^verbatim>\<open>github.com/mjibson/go-dsp\<close>, which is no part of
  this repository. It stands here for what it computes, the discrete Fourier transform
  of its argument: a list of the same length whose entry \<open>k\<close> is the sum over \<open>j\<close> of
  \<^verbatim>\<open>x[j] * exp(-2*pi*i*j*k/N)\<close>.
\<close>

definition FFT :: "complex list \<Rightarrow> complex list" where
  "FFT x =
     map (\<lambda>k. \<Sum>j<length x. x ! j * cis (- (2 * pi * real j * real k / real (length x))))
       [0..<length x]"

section \<open>The analyzer of \<^verbatim>\<open>main.go\<close>: RMS amplitude and dominant frequency\<close>

definition sampleRate :: real where
  "sampleRate = 44100"

definition bufferSize :: nat where
  "bufferSize = 512"

text \<open>
  \<^verbatim>\<open>beep.Streamer.Stream(samples) (n int, ok bool)\<close> of the wrapped streamer gets the
  slice, may write frames into it and returns how many it wrote and whether it is still
  alive. The model of one call maps the contents of the slice to its contents after the
  call, \<open>n\<close> and \<open>ok\<close>.
\<close>

type_synonym upstream = "frame list \<Rightarrow> frame list \<times> int \<times> bool"

record analyzerStreamer =
  streamer :: upstream
  buffer :: "frame list"
  rms :: float64
  freq :: float64

text \<open>
  \<^verbatim>\<open>for _, sample := range samples { sum += sample[0] * sample[0] }\<close>; the
  accumulator \<open>acc\<close> is the variable \<^verbatim>\<open>sum\<close>.
\<close>

fun sumSquares :: "frame list \<Rightarrow> real \<Rightarrow> real" where
  "sumSquares [] acc = acc"
| "sumSquares (sample # rest) acc = sumSquares rest (acc + fst sample * fst sample)"

text \<open>\<^verbatim>\<open>complexSamples[i] = complex(sample[0], 0)\<close>\<close>

definition complexSamples :: "frame list \<Rightarrow> complex list" where
  "complexSamples samples = map (\<lambda>sample. Complex (fst sample) 0) samples"

text \<open>The magnitudes of the first \<^verbatim>\<open>len(fftResult)/2\<close> bins.\<close>

definition magnitudes :: "complex list \<Rightarrow> real list" where
  "magnitudes fftResult =
     map (\<lambda>c. sqrt (Re c * Re c + Im c * Im c)) (take (length fftResult div 2) fftResult)"

text \<open>
  \<^verbatim>\<open>for i, mag := range magnitudes { if mag > maxMag { maxMag = mag; maxIndex = i } }\<close>,
  started with \<open>i = 0\<close>, \<open>maxMag = 0.0\<close> and \<open>maxIndex = 0\<close>.
\<close>

fun findMax :: "real list \<Rightarrow> nat \<Rightarrow> real \<Rightarrow> nat \<Rightarrow> nat" where
  "findMax [] i maxMag maxIndex = maxIndex"
| "findMax (mag # rest) i maxMag maxIndex =
     (if mag > maxMag then findMax rest (i + 1) mag i
      else findMax rest (i + 1) maxMag maxIndex)"

text \<open>\<^verbatim>\<open>a.rms = math.Sqrt(sum / float64(len(samples)))\<close>\<close>

definition blockRMS :: "frame list \<Rightarrow> float64" where
  "blockRMS samples = fsqrt (fdiv (sumSquares samples 0) (real (length samples)))"

text \<open>
  \<^verbatim>\<open>a.freq = float64(maxIndex) * sampleRate / float64(len(samples))\<close>; the constant
  \<^verbatim>\<open>sampleRate\<close> is the argument \<open>sr\<close>.
\<close>

definition dominantFreq :: "real \<Rightarrow> frame list \<Rightarrow> float64" where
  "dominantFreq sr samples =
     (let fftResult = FFT (complexSamples samples);
          maxIndex = findMax (magnitudes fftResult) 0 0 0
      in fdiv (real maxIndex * sr) (real (length samples)))"

text \<open>
  \<^verbatim>\<open>func (a *analyzerStreamer) Stream(samples [][2]float64) (n int, ok bool)\<close> returns
  the analyzer after the call, the slice after the call, \<open>n\<close> and \<open>ok\<close>. The first
  program of \<^verbatim>\<open>part_000\<close> has the same function, line for line.
\<close>

definition Stream ::
  "analyzerStreamer \<Rightarrow> frame list \<Rightarrow> analyzerStreamer \<times> frame list \<times> int \<times> bool" where
  "Stream a samples0 =
     (case streamer a samples0 of (samples, n, ok) \<Rightarrow>
        if \<not> ok then (a, samples, n, ok)
        else
          (a\<lparr>buffer := copy (buffer a) samples,
             rms := blockRMS samples,
             freq := dominantFreq sampleRate samples\<rparr>,
           samples, n, ok))"

text \<open>\<^verbatim>\<open>func (a *analyzerStreamer) getAnalysis() (rms, freq float64)\<close>\<close>

definition getAnalysis :: "analyzerStreamer \<Rightarrow> float64 \<times> float64" where
  "getAnalysis a = (rms a, freq a)"

section \<open>The analyzer with a banded spectrum (the second program of \<^verbatim>\<open>part_000\<close>)\<close>

text \<open>
  The second \<^verbatim>\<open>package main\<close> of \<^verbatim>\<open>part_000\<close> declares \<^verbatim>\<open>analyzerStreamer\<close>,
  \<^verbatim>\<open>Stream\<close> and \<^verbatim>\<open>bufferSize\<close> again; its names carry the suffix \<open>_sp\<close> here.
\<close>

definition bufferSize_sp :: nat where
  "bufferSize_sp = 2048"

definition numFrequencyBands :: nat where
  "numFrequencyBands = 30"

text \<open>A run-time panic of Go: a slice bound or an index out of range.\<close>

datatype error = Panic

text \<open>\<^verbatim>\<open>xs[i]\<close> read and written, with the bounds check of the language.\<close>

definition index :: "'a list \<Rightarrow> nat \<Rightarrow> error + 'a" where
  "index xs i = (if i < length xs then Inr (xs ! i) else Inl Panic)"

definition store :: "'a list \<Rightarrow> nat \<Rightarrow> 'a \<Rightarrow> error + 'a list" where
  "store xs i v = (if i < length xs then Inr (xs[i := v]) else Inl Panic)"

record analyzerStreamer_sp =
  streamer_sp :: upstream
  buffer_sp :: "frame list"
  spectrum :: "real list"

text \<open>
  \<^verbatim>\<open>binsPerBand := len(magnitudes) / numFrequencyBands; if binsPerBand == 0 { binsPerBand = 1 }\<close>
  with the constant \<^verbatim>\<open>numFrequencyBands\<close> as the argument \<open>B\<close> and \<open>M\<close> for
  \<^verbatim>\<open>len(magnitudes)\<close>.
\<close>

definition binsPerBand :: "nat \<Rightarrow> nat \<Rightarrow> nat" where
  "binsPerBand B M = (let b = M div B in if b = 0 then 1 else b)"

text \<open>
  The inner loop
  \<^verbatim>\<open>for j := i*binsPerBand; j < (i+1)*binsPerBand && j < len(magnitudes); j++\<close>
  from \<open>j\<close> on, with the bound \<open>hi = (i+1)*binsPerBand\<close>; it returns \<^verbatim>\<open>bandSum\<close> and
  \<^verbatim>\<open>binCount\<close>.
\<close>

function bandLoop :: "real list \<Rightarrow> nat \<Rightarrow> nat \<Rightarrow> real \<Rightarrow> nat \<Rightarrow> error + (real \<times> nat)" where
  "bandLoop mags j hi bandSum binCount =
     (if j < hi \<and> j < length mags then
        (case index mags j of
           Inl e \<Rightarrow> Inl e
         | Inr mag \<Rightarrow>
             bandLoop mags (j + 1) hi (bandSum + 20 * log 10 (mag + 1 / 1000000)) (binCount + 1))
      else Inr (bandSum, binCount))"
  by pat_completeness auto
termination
  by (relation "measure (\<lambda>(mags, j, hi, bandSum, binCount). hi - j)") auto

text \<open>
  The bins that this loop reads, in the order it reads them: the same loop header,
  collecting \<open>j\<close> (\<open>len\<close> is \<^verbatim>\<open>len(magnitudes)\<close>).
\<close>

function bandBins :: "nat \<Rightarrow> nat \<Rightarrow> nat \<Rightarrow> nat list" where
  "bandBins j hi len = (if j < hi \<and> j < len then j # bandBins (j + 1) hi len else [])"
  by pat_completeness auto
termination
  by (relation "measure (\<lambda>(j, hi, len). hi - j)") auto

text \<open>
  The outer loop \<^verbatim>\<open>for i := 0; i < numFrequencyBands; i++\<close> from \<open>i\<close> on, writing
  \<^verbatim>\<open>a.spectrum[i]\<close> where the band read at least one bin.
\<close>

function bandsLoop ::
  "nat \<Rightarrow> nat \<Rightarrow> nat \<Rightarrow> real list \<Rightarrow> real list \<Rightarrow> error + real list" where
  "bandsLoop B bpb i mags spec =
     (if i < B then
        (case bandLoop mags (i * bpb) ((i + 1) * bpb) 0 0 of
           Inl e \<Rightarrow> Inl e
         | Inr (bandSum, binCount) \<Rightarrow>
             if binCount > 0 then
               (let normalizedMag = (bandSum / real binCount) / 100;
                    normalizedMag = (if normalizedMag < 0 then 0 else normalizedMag)
                in (case store spec i normalizedMag of
                      Inl e \<Rightarrow> Inl e
                    | Inr spec' \<Rightarrow> bandsLoop B bpb (i + 1) mags spec'))
             else bandsLoop B bpb (i + 1) mags spec)
      else Inr spec)"
  by pat_completeness auto
termination
  by (relation "measure (\<lambda>(B, bpb, i, mags, spec). B - i)") auto

text \<open>
  The smoothing loop
  \<^verbatim>\<open>for i := range a.spectrum { if i > 0 { a.spectrum[i] = (a.spectrum[i] + a.spectrum[i-1]*0.5) / 1.5 } }\<close>
  from \<open>i\<close> on; it updates the slice in place, so band \<open>i\<close> reads what the loop left in
  band \<open>i - 1\<close>.
\<close>

function smoothLoop :: "nat \<Rightarrow> real list \<Rightarrow> real list" where
  "smoothLoop i spec =
     (if i < length spec then
        smoothLoop (i + 1)
          (if i > 0 then spec[i := (spec ! i + spec ! (i - 1) * 0.5) / 1.5] else spec)
      else spec)"
  by pat_completeness auto
termination
  by (relation "measure (\<lambda>(i, spec). length spec - i)") auto

declare bandLoop.simps [simp del] bandBins.simps [simp del] bandsLoop.simps [simp del]
  smoothLoop.simps [simp del]

text \<open>
  The body of \<^verbatim>\<open>Stream\<close> from \<^verbatim>\<open>copy(a.buffer, samples[:processSize])\<close> to the end of
  the smoothing loop, on \<open>block = samples[:processSize]\<close>: the copy into the buffer, the
  transform, the early return when there is no magnitude bin, the reset of the spectrum,
  the bands and the smoothing.
\<close>

definition analyzeBlock :: "analyzerStreamer_sp \<Rightarrow> frame list \<Rightarrow> error + analyzerStreamer_sp" where
  "analyzeBlock a block =
     (let a1 = a\<lparr>buffer_sp := copy (buffer_sp a) block\<rparr>;
          fftResult = FFT (complexSamples block);
          mags = magnitudes fftResult
      in if length mags = 0 then Inr a1
         else
           let spec0 = map (\<lambda>_. 0) (spectrum a1);
               bpb = binsPerBand numFrequencyBands (length mags)
           in (case bandsLoop numFrequencyBands bpb 0 mags spec0 of
                 Inl e \<Rightarrow> Inl e
               | Inr spec1 \<Rightarrow> Inr (a1\<lparr>spectrum := smoothLoop 0 spec1\<rparr>)))"

text \<open>
  \<^verbatim>\<open>func (a *analyzerStreamer) Stream(samples [][2]float64) (n int, ok bool)\<close> of this
  program. \<^verbatim>\<open>samples[:processSize]\<close> panics when \<open>processSize\<close> is negative or beyond the
  capacity of the slice, and \<^verbatim>\<open>samples[i][0]\<close> panics at \<open>i = len(samples)\<close> when
  \<open>processSize\<close> lies between the length and the capacity: in both cases the call panics
  exactly when \<open>processSize\<close> is outside \<open>0..len(samples)\<close>.
\<close>

definition Stream_sp ::
  "analyzerStreamer_sp \<Rightarrow> frame list \<Rightarrow>
     error + (analyzerStreamer_sp \<times> frame list \<times> int \<times> bool)" where
  "Stream_sp a samples0 =
     (case streamer_sp a samples0 of (samples, n, ok) \<Rightarrow>
        if \<not> ok then Inr (a, samples, n, ok)
        else
          let processSize = (if n > int bufferSize_sp then int bufferSize_sp else n)
          in if processSize < 0 \<or> int (length samples) < processSize then Inl Panic
             else
               (case analyzeBlock a (take (nat processSize) samples) of
                  Inl e \<Rightarrow> Inl e
                | Inr a' \<Rightarrow> Inr (a', samples, n, ok)))"

text \<open>\<^verbatim>\<open>func (a *analyzerStreamer) getSpectrum() []float64\<close> returns a copy.\<close>

definition getSpectrum :: "analyzerStreamer_sp \<Rightarrow> real list" where
  "getSpectrum a = copy (replicate (length (spectrum a)) 0) (spectrum a)"

section \<open>The playlist loop of \<^verbatim>\<open>main.go\<close>\<close>

text \<open>
  What \<^verbatim>\<open>playAndAnalyze\<close> returns on failure: \<^verbatim>\<open>fmt.Errorf("error opening file: %v", err)\<close>
  or \<^verbatim>\<open>fmt.Errorf("error decoding file: %v", err)\<close>, with the text of the cause.
\<close>

datatype playError = OpenError string | DecodeError string

text \<open>What the \<^verbatim>\<open>select\<close> of \<^verbatim>\<open>playAndAnalyze\<close> can receive: a tick of the ticker or \<^verbatim>\<open>done\<close>.\<close>

datatype signal = Tick | Done

text \<open>
  What a run does that can be seen from outside, in order: the messages
  \<^verbatim>\<open>p.Send(updateMsg{currentSong: ...})\<close> of \<^verbatim>\<open>main\<close>, \<^verbatim>\<open>speaker.Play\<close> of a decoded track,
  the message with the analysis at a tick, the line of \<^verbatim>\<open>log.Printf("Error playing %s: %v", file, err)\<close>
  and \<^verbatim>\<open>p.Send(tea.Quit())\<close>.
\<close>

datatype event = SendSong string | Play string | SendAnalysis string
  | LogError string playError | SendQuit

text \<open>
  The collaborators of the run: \<^verbatim>\<open>speaker.Init\<close> (its error, if any), the result of
  \<^verbatim>\<open>scanMusicDir(musicDir)\<close>, \<^verbatim>\<open>os.Open\<close> and \<^verbatim>\<open>mp3.Decode\<close> (\<open>Inl\<close> the text of the
  error), and for a decoded stream the signals that arrive while it plays. The goroutine
  of the terminal program, which ends the process when the user quits, is not part of
  this sequential model.
\<close>

record ('f, 's) world =
  speakerInit :: "string option"
  scanMusicDir :: "string + string list"
  osOpen :: "string \<Rightarrow> string + 'f"
  mp3Decode :: "'f \<Rightarrow> string + 's"
  signals :: "'s \<Rightarrow> signal list"

text \<open>
  \<^verbatim>\<open>for { select { case <-ticker.C: ...; case <-done: return nil } }\<close>: every tick sends
  an update, \<^verbatim>\<open>done\<close> ends the loop. When no \<^verbatim>\<open>done\<close> ever arrives the loop does not
  return: \<open>None\<close>.
\<close>

fun selectLoop :: "string \<Rightarrow> signal list \<Rightarrow> event list option" where
  "selectLoop file [] = None"
| "selectLoop file (Tick # rest) = map_option ((#) (SendAnalysis file)) (selectLoop file rest)"
| "selectLoop file (Done # rest) = Some []"

text \<open>
  \<^verbatim>\<open>func playAndAnalyze(file string, p *tea.Program) error\<close>: the events of the call and
  the error it returns (\<open>None\<close> for \<^verbatim>\<open>nil\<close>).
\<close>

definition playAndAnalyze ::
  "('f, 's) world \<Rightarrow> string \<Rightarrow> (event list \<times> playError option) option" where
  "playAndAnalyze w file =
     (case osOpen w file of
        Inl err \<Rightarrow> Some ([], Some (OpenError err))
      | Inr f \<Rightarrow>
          (case mp3Decode w f of
             Inl err \<Rightarrow> Some ([], Some (DecodeError err))
           | Inr st \<Rightarrow>
               (case selectLoop file (signals w st) of
                  None \<Rightarrow> None
                | Some evs \<Rightarrow> Some (Play file # evs, None))))"

text \<open>
  \<^verbatim>\<open>for _, file := range files { p.Send(...); err := playAndAnalyze(file, p); if err != nil { log.Printf(...); continue } }\<close>
\<close>

fun mainLoop :: "('f, 's) world \<Rightarrow> string list \<Rightarrow> event list option" where
  "mainLoop w [] = Some []"
| "mainLoop w (file # files) =
     (case playAndAnalyze w file of
        None \<Rightarrow> None
      | Some (evs, err) \<Rightarrow>
          (case mainLoop w files of
             None \<Rightarrow> None
           | Some rest \<Rightarrow>
               Some (SendSong file # evs
                     @ (case err of None \<Rightarrow> [] | Some e \<Rightarrow> [LogError file e])
                     @ rest)))"

text \<open>
  \<^verbatim>\<open>func main()\<close>: \<open>Inl\<close> is the message of \<^verbatim>\<open>log.Fatalf\<close>, which ends the process;
  otherwise the events of the loop and the final \<^verbatim>\<open>p.Send(tea.Quit())\<close>.
\<close>

definition main :: "('f, 's) world \<Rightarrow> (string + event list) option" where
  "main w =
     (case speakerInit w of
        Some err \<Rightarrow> Some (Inl (''Error initializing speaker: '' @ err))
      | None \<Rightarrow>
          (case scanMusicDir w of
             Inl err \<Rightarrow> Some (Inl (''Error scanning directory: '' @ err))
           | Inr files \<Rightarrow> map_option (\<lambda>evs. Inr (evs @ [SendQuit])) (mainLoop w files)))"

text \<open>The tracks that a run handed to the speaker, and the files it logged an error for.\<close>

fun played :: "event list \<Rightarrow> string list" where
  "played [] = []"
| "played (Play file # evs) = file # played evs"
| "played (_ # evs) = played evs"

fun logged :: "event list \<Rightarrow> string list" where
  "logged [] = []"
| "logged (LogError file _ # evs) = file # logged evs"
| "logged (_ # evs) = logged evs"

text \<open>A file opens and decodes.\<close>

definition decodes :: "('f, 's) world \<Rightarrow> string \<Rightarrow> bool" where
  "decodes w file =
     (case osOpen w file of
        Inl _ \<Rightarrow> False
      | Inr f \<Rightarrow> (case mp3Decode w f of Inl _ \<Rightarrow> False | Inr _ \<Rightarrow> True))"

text \<open>The playback of a file, if it starts, signals its end.\<close>

definition finishes :: "('f, 's) world \<Rightarrow> string \<Rightarrow> bool" where
  "finishes w file =
     (case osOpen w file of
        Inl _ \<Rightarrow> True
      | Inr f \<Rightarrow> (case mp3Decode w f of Inl _ \<Rightarrow> True | Inr s \<Rightarrow> Done \<in> set (signals w s)))"

text \<open>
  What the outer loop stores for a band that read the bins \<open>bins\<close>:
  \<^verbatim>\<open>(bandSum / float64(binCount)) / 100.0\<close>, and \<open>0\<close> when that is negative.
\<close>

definition bandValue :: "real list \<Rightarrow> nat list \<Rightarrow> real" where
  "bandValue mags bins =
     (let normalizedMag =
            ((\<Sum>k\<leftarrow>bins. 20 * log 10 (mags ! k + 1 / 1000000)) / real (length bins)) / 100
      in if normalizedMag < 0 then 0 else normalizedMag)"

section \<open>Lemmas about the transform of \<^verbatim>\<open>main.go\<close>\<close>

lemma sumSquares_acc: "sumSquares xs acc = acc + (\<Sum>x\<leftarrow>xs. fst x * fst x)"
  by (induction xs arbitrary: acc) simp_all

lemma length_FFT: "length (FFT x) = length x"
  by (simp add: FFT_def)

lemma FFT_zero:
  assumes "\<forall>c\<in>set x. c = 0"
  shows "\<forall>c\<in>set (FFT x). c = 0"
proof -
  have "x ! j = 0" if "j < length x" for j
    using assms that by simp
  then show ?thesis
    by (simp add: FFT_def)
qed

lemma magnitudes_zero:
  assumes "\<forall>c\<in>set f. c = 0"
  shows "\<forall>m\<in>set (magnitudes f). m = 0"
proof
  fix m assume "m \<in> set (magnitudes f)"
  then obtain c where c: "c \<in> set (take (length f div 2) f)"
    and m: "m = sqrt (Re c * Re c + Im c * Im c)"
    by (auto simp: magnitudes_def)
  from c have "c \<in> set f" by (rule in_set_takeD)
  with assms have "c = 0" by blast
  with m show "m = 0" by simp
qed

lemma findMax_le: "\<forall>m\<in>set mags. m \<le> maxMag \<Longrightarrow> findMax mags i maxMag maxIndex = maxIndex"
  by (induction mags arbitrary: i) auto

lemma blockRMS_silent:
  assumes "samples \<noteq> []" "\<forall>x\<in>set samples. fst x = 0"
  shows "blockRMS samples = Fin 0"
proof -
  have "(\<Sum>x\<leftarrow>samples. fst x * fst x) = 0"
    using assms(2) by (induction samples) simp_all
  then show ?thesis using assms(1)
    by (simp add: blockRMS_def sumSquares_acc fdiv_def)
qed

lemma dominantFreq_silent:
  assumes "samples \<noteq> []" "\<forall>x\<in>set samples. fst x = 0"
  shows "dominantFreq sr samples = Fin 0"
proof -
  have "\<forall>c\<in>set (complexSamples samples). c = 0"
    using assms(2) by (auto simp: complexSamples_def zero_complex.code)
  then have "\<forall>m\<in>set (magnitudes (FFT (complexSamples samples))). m \<le> 0"
    using magnitudes_zero [OF FFT_zero] by fastforce
  then have "findMax (magnitudes (FFT (complexSamples samples))) 0 0 0 = 0"
    by (rule findMax_le)
  then show ?thesis using assms(1)
    by (simp add: dominantFreq_def fdiv_def)
qed

lemma blockRMS_empty: "blockRMS [] = NaN"
  by (simp add: blockRMS_def fdiv_def)

lemma dominantFreq_empty: "dominantFreq sr [] = NaN"
  by (simp add: dominantFreq_def fdiv_def FFT_def complexSamples_def magnitudes_def)

lemma Stream_ok:
  "streamer a s0 = (samples, n, True) \<Longrightarrow>
   Stream a s0 = (a\<lparr>buffer := copy (buffer a) samples, rms := blockRMS samples,
                    freq := dominantFreq sampleRate samples\<rparr>, samples, n, True)"
  by (simp add: Stream_def)

lemma Stream_not_ok:
  "streamer a s0 = (samples, n, False) \<Longrightarrow> Stream a s0 = (a, samples, n, False)"
  by (simp add: Stream_def)

lemma upt4: "[0..<4] = [0, 1, 2, 3]"
  by (simp add: upt_rec)

lemma lt4: "{..<4::nat} = {0, 1, 2, 3}"
  by auto

lemma cis_m_pi: "cis (- pi) = - 1"
  by (simp add: cis_cnj [symmetric] del: cis_cnj)

lemma FFT_4_half:
  "take 2 (FFT [1, 0, - 1, 0]) = [0, 2]"
  by (simp add: FFT_def upt4 lt4 cis_m_pi)

section \<open>Lemmas about the bands and the smoothing\<close>

lemma bandBins_step: "j < hi \<Longrightarrow> j < len \<Longrightarrow> bandBins j hi len = j # bandBins (j + 1) hi len"
  by (subst bandBins.simps) simp

lemma bandBins_stop: "\<not> (j < hi \<and> j < len) \<Longrightarrow> bandBins j hi len = []"
  by (subst bandBins.simps) simp

lemma bandLoop_step:
  "j < hi \<Longrightarrow> j < length mags \<Longrightarrow>
   bandLoop mags j hi bandSum binCount =
     bandLoop mags (j + 1) hi (bandSum + 20 * log 10 (mags ! j + 1 / 1000000)) (binCount + 1)"
  by (subst bandLoop.simps) (simp add: index_def)

lemma bandLoop_stop:
  "\<not> (j < hi \<and> j < length mags) \<Longrightarrow> bandLoop mags j hi bandSum binCount = Inr (bandSum, binCount)"
  by (subst bandLoop.simps) auto

lemma bandBins_eq: "bandBins j hi len = [j..<min hi len]"
proof (induction j hi len rule: bandBins.induct)
  case (1 j hi len)
  show ?case
  proof (cases "j < hi \<and> j < len")
    case True
    then have "[j..<min hi len] = j # [j + 1..<min hi len]"
      by (simp add: upt_conv_Cons)
    with True 1 show ?thesis by (simp add: bandBins_step)
  next
    case False
    then show ?thesis by (auto simp: bandBins_stop)
  qed
qed

lemma bandLoop_eq:
  "bandLoop mags j hi bandSum binCount =
     Inr (bandSum + (\<Sum>k\<leftarrow>bandBins j hi (length mags). 20 * log 10 (mags ! k + 1 / 1000000)),
          binCount + length (bandBins j hi (length mags)))"
proof (induction "hi - j" arbitrary: j bandSum binCount)
  case 0
  then show ?case
    by (simp add: bandLoop_stop bandBins_stop)
next
  case (Suc d)
  show ?case
  proof (cases "j < length mags")
    case True
    moreover from Suc(2) have "j < hi" and "d = hi - (j + 1)" by simp_all
    ultimately show ?thesis
      using Suc(1) [of "j + 1"]
      by (simp add: bandLoop_step bandBins_step algebra_simps)
  next
    case False
    then show ?thesis
      by (simp add: bandLoop_stop bandBins_stop)
  qed
qed

lemma upt_chunks:
  "concat (map (\<lambda>i. [i * b..<min ((i + 1) * b) M]) [0..<B]) = [0..<min (B * b) M]"
proof (induction B)
  case 0
  then show ?case by simp
next
  case (Suc B)
  show ?case
  proof (cases "B * b \<le> M")
    case True
    then have "B * b \<le> min (Suc B * b) M" by simp
    then obtain k where k: "min (Suc B * b) M = B * b + k"
      using le_Suc_ex by blast
    have "[0..<B * b + k] = [0..<B * b] @ [B * b..<B * b + k]"
      by (rule upt_add_eq_append) simp
    with k have "[0..<min (Suc B * b) M] = [0..<B * b] @ [B * b..<min (Suc B * b) M]"
      by simp
    with True Suc show ?thesis by (simp add: min_absorb1)
  next
    case False
    then have "min (B * b) M = M" "min (Suc B * b) M = M" by simp_all
    with False Suc show ?thesis by simp
  qed
qed

lemma band_bins_partition:
  "concat (map (\<lambda>i. bandBins (i * bpb) ((i + 1) * bpb) M) [0..<B]) = [0..<min (B * bpb) M]"
  unfolding bandBins_eq by (rule upt_chunks)

lemma smoothLoop_stop: "\<not> i < length spec \<Longrightarrow> smoothLoop i spec = spec"
  by (subst smoothLoop.simps) simp

lemma smoothLoop_first: "0 < length spec \<Longrightarrow> smoothLoop 0 spec = smoothLoop 1 spec"
  by (subst smoothLoop.simps) simp

lemma smoothLoop_step:
  "0 < i \<Longrightarrow> i < length spec \<Longrightarrow>
   smoothLoop i spec = smoothLoop (i + 1) (spec[i := (spec ! i + spec ! (i - 1) * 0.5) / 1.5])"
  by (subst smoothLoop.simps) simp

lemma length_smoothLoop: "length (smoothLoop i spec) = length spec"
proof (induction "length spec - i" arbitrary: i spec)
  case 0
  then show ?case by (simp add: smoothLoop_stop)
next
  case (Suc d)
  then have i: "i < length spec" by simp
  show ?case
  proof (cases "i = 0")
    case True
    with i Suc(1) [of spec 1] Suc(2) show ?thesis by (simp add: smoothLoop_first)
  next
    case False
    with i Suc(1) [of "spec[i := (spec ! i + spec ! (i - 1) * 0.5) / 1.5]" "i + 1"] Suc(2)
    show ?thesis by (simp add: smoothLoop_step)
  qed
qed

lemma smoothLoop_below: "k < i \<Longrightarrow> smoothLoop i spec ! k = spec ! k"
proof (induction "length spec - i" arbitrary: i spec)
  case 0
  then show ?case by (simp add: smoothLoop_stop)
next
  case (Suc d)
  then have i: "i < length spec" "0 < i" by simp_all
  with Suc(1) [of "spec[i := (spec ! i + spec ! (i - 1) * 0.5) / 1.5]" "i + 1"] Suc(2,3)
  show ?case by (simp add: smoothLoop_step)
qed

lemma smoothLoop_rec:
  "0 < i \<Longrightarrow> i \<le> k \<Longrightarrow> k < length spec \<Longrightarrow>
   smoothLoop i spec ! k = (spec ! k + smoothLoop i spec ! (k - 1) * 0.5) / 1.5"
proof (induction "length spec - i" arbitrary: i spec)
  case 0
  then show ?case by simp
next
  case (Suc d)
  let ?v = "(spec ! i + spec ! (i - 1) * 0.5) / 1.5"
  let ?spec = "spec[i := ?v]"
  from Suc have i: "i < length spec" by simp
  with Suc(3) have unfold: "smoothLoop i spec = smoothLoop (i + 1) ?spec"
    by (simp add: smoothLoop_step)
  show ?case
  proof (cases "k = i")
    case True
    have "smoothLoop (i + 1) ?spec ! i = ?spec ! i"
      by (rule smoothLoop_below) simp
    moreover have "smoothLoop (i + 1) ?spec ! (i - 1) = ?spec ! (i - 1)"
      by (rule smoothLoop_below) simp
    ultimately show ?thesis using True i Suc(3) unfold by simp
  next
    case False
    with Suc(4) have "i + 1 \<le> k" by simp
    moreover from Suc(2) have "d = length ?spec - (i + 1)" by simp
    ultimately have "smoothLoop (i + 1) ?spec ! k =
        (?spec ! k + smoothLoop (i + 1) ?spec ! (k - 1) * 0.5) / 1.5"
      using Suc(1) [of ?spec "i + 1"] Suc(5) by simp
    with False unfold show ?thesis by simp
  qed
qed

lemma bandsLoop_stop: "\<not> i < B \<Longrightarrow> bandsLoop B bpb i mags spec = Inr spec"
  by (subst bandsLoop.simps) simp

lemma bandsLoop_skip:
  "i < B \<Longrightarrow> bandBins (i * bpb) ((i + 1) * bpb) (length mags) = [] \<Longrightarrow>
   bandsLoop B bpb i mags spec = bandsLoop B bpb (i + 1) mags spec"
  by (subst bandsLoop.simps) (simp add: bandLoop_eq)

lemma bandValue_nonneg: "0 \<le> bandValue mags bins"
  by (simp add: bandValue_def Let_def)

lemma bandsLoop_store_value:
  assumes "i < B" "bandBins (i * bpb) ((i + 1) * bpb) (length mags) \<noteq> []" "i < length spec"
  shows "bandsLoop B bpb i mags spec =
    bandsLoop B bpb (i + 1) mags
      (spec[i := bandValue mags (bandBins (i * bpb) ((i + 1) * bpb) (length mags))])"
  using assms
  by (subst bandsLoop.simps) (simp add: bandLoop_eq store_def Let_def bandValue_def)

lemma bandsLoop_values:
  assumes "B \<le> length spec"
  shows "\<exists>spec'. bandsLoop B bpb i mags spec = Inr spec' \<and> length spec' = length spec \<and>
           (\<forall>k<length spec.
              spec' ! k =
                (if i \<le> k \<and> k < B \<and> bandBins (k * bpb) ((k + 1) * bpb) (length mags) \<noteq> []
                 then bandValue mags (bandBins (k * bpb) ((k + 1) * bpb) (length mags))
                 else spec ! k))"
  using assms
proof (induction "B - i" arbitrary: i spec)
  case 0
  then show ?case by (simp add: bandsLoop_stop)
next
  case (Suc d)
  then have i: "i < B" and d: "d = B - (i + 1)" by simp_all
  let ?bins = "\<lambda>k. bandBins (k * bpb) ((k + 1) * bpb) (length mags)"
  show ?case
  proof (cases "?bins i = []")
    case True
    from Suc(1) [OF d Suc(3)] obtain spec' where
      s: "bandsLoop B bpb (i + 1) mags spec = Inr spec'" "length spec' = length spec"
        "\<forall>k<length spec. spec' ! k =
           (if i + 1 \<le> k \<and> k < B \<and> ?bins k \<noteq> [] then bandValue mags (?bins k) else spec ! k)"
      by blast
    have "\<forall>k<length spec. spec' ! k =
           (if i \<le> k \<and> k < B \<and> ?bins k \<noteq> [] then bandValue mags (?bins k) else spec ! k)"
    proof (intro allI impI)
      fix k assume k: "k < length spec"
      show "spec' ! k =
           (if i \<le> k \<and> k < B \<and> ?bins k \<noteq> [] then bandValue mags (?bins k) else spec ! k)"
      proof (cases "k = i")
        case True
        with s(3) k \<open>?bins i = []\<close> show ?thesis by simp
      next
        case False
        then have "i \<le> k \<longleftrightarrow> i + 1 \<le> k" by auto
        with s(3) k show ?thesis by simp
      qed
    qed
    with s(1,2) i True show ?thesis
      by (simp add: bandsLoop_skip)
  next
    case False
    from i Suc(3) have il: "i < length spec" by simp
    let ?spec = "spec[i := bandValue mags (?bins i)]"
    have step: "bandsLoop B bpb i mags spec = bandsLoop B bpb (i + 1) mags ?spec"
      by (rule bandsLoop_store_value [OF i False il])
    from Suc(3) have "B \<le> length ?spec" by simp
    from Suc(1) [OF d this] obtain spec' where
      s: "bandsLoop B bpb (i + 1) mags ?spec = Inr spec'" "length spec' = length spec"
        "\<forall>k<length spec. spec' ! k =
           (if i + 1 \<le> k \<and> k < B \<and> ?bins k \<noteq> [] then bandValue mags (?bins k) else ?spec ! k)"
      by auto
    have "\<forall>k<length spec. spec' ! k =
           (if i \<le> k \<and> k < B \<and> ?bins k \<noteq> [] then bandValue mags (?bins k) else spec ! k)"
    proof (intro allI impI)
      fix k assume k: "k < length spec"
      show "spec' ! k =
           (if i \<le> k \<and> k < B \<and> ?bins k \<noteq> [] then bandValue mags (?bins k) else spec ! k)"
      proof (cases "k = i")
        case True
        with s(3) k i False show ?thesis by simp
      next
        case False
        then have "i \<le> k \<longleftrightarrow> i + 1 \<le> k" by auto
        with s(3) k False show ?thesis by simp
      qed
    qed
    with step s(1,2) show ?thesis by simp
  qed
qed

lemma bandBins_empty_iff: "0 < bpb \<Longrightarrow> bandBins (k * bpb) ((k + 1) * bpb) M = [] \<longleftrightarrow> M \<le> k * bpb"
  by (auto simp: bandBins_eq)

lemma log10_millionth: "log 10 (1 / 1000000) = - 6"
proof -
  have "(1000000::real) = 10 ^ 6" by simp
  then have "log 10 (1000000::real) = 6"
    by (simp only: log_pow_cancel)
  then show ?thesis by (simp add: log_divide)
qed

lemma smoothLoop_zeros: "smoothLoop i (replicate n 0) = replicate n 0"
proof (induction "n - i" arbitrary: i)
  case 0
  then show ?case by (simp add: smoothLoop_stop)
next
  case (Suc d)
  then have i: "i < n" and d: "d = n - (i + 1)" by simp_all
  show ?case
  proof (cases "i = 0")
    case True
    with i Suc(1) [OF d] show ?thesis by (simp add: smoothLoop_first)
  next
    case False
    with i have "(replicate n (0::real))[i := (replicate n 0 ! i + replicate n 0 ! (i - 1) * 0.5) / 1.5]
        = replicate n 0"
      by (simp add: list_eq_iff_nth_eq nth_list_update)
    with False i Suc(1) [OF d] show ?thesis by (simp add: smoothLoop_step)
  qed
qed

lemma binsPerBand_pos: "0 < binsPerBand B M"
  by (simp add: binsPerBand_def Let_def)

lemma binsPerBand_small: "M < B \<Longrightarrow> binsPerBand B M = 1"
  by (simp add: binsPerBand_def)

lemma Stream_sp_not_ok:
  "streamer_sp a s0 = (samples, n, False) \<Longrightarrow> Stream_sp a s0 = Inr (a, samples, n, False)"
  by (simp add: Stream_sp_def)

lemma Stream_sp_snd: "Stream_sp a s0 = Inr r \<Longrightarrow> snd r = streamer_sp a s0"
  by (auto simp: Stream_sp_def Let_def split: prod.splits if_splits sum.splits)

lemma analyzeBlock_returns:
  assumes len: "numFrequencyBands \<le> length (spectrum a)"
  shows "\<exists>a'. analyzeBlock a block = Inr a' \<and> length (spectrum a') = length (spectrum a)"
proof -
  define a1 where "a1 = a\<lparr>buffer_sp := copy (buffer_sp a) block\<rparr>"
  define mags where "mags = magnitudes (FFT (complexSamples block))"
  define spec0 where "spec0 = map (\<lambda>_. 0::real) (spectrum a1)"
  have "numFrequencyBands \<le> length spec0"
    using len by (simp add: spec0_def a1_def)
  from bandsLoop_values [OF this, of "binsPerBand numFrequencyBands (length mags)" 0 mags]
  obtain spec1 where
    s: "bandsLoop numFrequencyBands (binsPerBand numFrequencyBands (length mags)) 0 mags spec0
          = Inr spec1"
      "length spec1 = length spec0"
    by blast
  have "analyzeBlock a block =
      (if length mags = 0 then Inr a1 else Inr (a1\<lparr>spectrum := smoothLoop 0 spec1\<rparr>))"
    using s(1)
    by (simp add: analyzeBlock_def Let_def a1_def [symmetric] mags_def [symmetric]
        spec0_def [symmetric])
  then show ?thesis
    using s(2) by (simp add: length_smoothLoop spec0_def a1_def)
qed

lemma Stream_sp_returns:
  assumes up: "streamer_sp a s0 = (samples, n, ok)"
    and n: "0 \<le> n" "n \<le> int (length samples)"
    and len: "numFrequencyBands \<le> length (spectrum a)"
  shows "\<exists>a'. Stream_sp a s0 = Inr (a', samples, n, ok) \<and>
              length (spectrum a') = length (spectrum a)"
proof (cases ok)
  case False
  with up show ?thesis by (simp add: Stream_sp_def)
next
  case True
  show ?thesis
  proof (cases "int bufferSize_sp < n")
    case big: True
    from analyzeBlock_returns [OF len, of "take bufferSize_sp samples"]
    obtain a' where a': "analyzeBlock a (take bufferSize_sp samples) = Inr a'"
      "length (spectrum a') = length (spectrum a)"
      by blast
    have "Stream_sp a s0 = Inr (a', samples, n, ok)"
      using up True big n a'(1) by (simp add: Stream_sp_def Let_def)
    with a'(2) show ?thesis by blast
  next
    case small: False
    from analyzeBlock_returns [OF len, of "take (nat n) samples"]
    obtain a' where a': "analyzeBlock a (take (nat n) samples) = Inr a'"
      "length (spectrum a') = length (spectrum a)"
      by blast
    have "Stream_sp a s0 = Inr (a', samples, n, ok)"
      using up True small n a'(1) by (simp add: Stream_sp_def Let_def)
    with a'(2) show ?thesis by blast
  qed
qed

lemma analyzeBlock_forgets:
  assumes "2 \<le> length block" "length sp = length (spectrum a)"
  shows "analyzeBlock (a\<lparr>spectrum := sp\<rparr>) block = analyzeBlock a block"
proof -
  from assms(1) have "length (magnitudes (FFT (complexSamples block))) \<noteq> 0"
    by (simp add: magnitudes_def length_FFT complexSamples_def)
  with assms(2) show ?thesis
    by (simp add: analyzeBlock_def Let_def map_replicate_const split: sum.splits)
qed

section \<open>Lemmas about the playlist loop\<close>

lemma played_append: "played (xs @ ys) = played xs @ played ys"
  by (induction xs rule: played.induct) simp_all

lemma logged_append: "logged (xs @ ys) = logged xs @ logged ys"
  by (induction xs rule: logged.induct) simp_all

lemma selectLoop_done:
  "Done \<in> set sigs \<Longrightarrow> \<exists>evs. selectLoop file sigs = Some evs \<and> played evs = [] \<and> logged evs = []"
proof (induction sigs)
  case Nil
  then show ?case by simp
next
  case (Cons s sigs)
  then show ?case by (cases s) auto
qed

lemma playAndAnalyze_fails:
  "\<not> decodes w file \<Longrightarrow> \<exists>e. playAndAnalyze w file = Some ([], Some e)"
  by (auto simp: decodes_def playAndAnalyze_def split: sum.splits)

lemma playAndAnalyze_plays:
  assumes "decodes w file" "finishes w file"
  shows "\<exists>evs. playAndAnalyze w file = Some (Play file # evs, None) \<and>
           played evs = [] \<and> logged evs = []"
proof -
  from assms(1) obtain f s where fs: "osOpen w file = Inr f" "mp3Decode w f = Inr s"
    by (auto simp: decodes_def split: sum.splits)
  with assms(2) have "Done \<in> set (signals w s)" by (simp add: finishes_def)
  from selectLoop_done [OF this, of "file"] fs show ?thesis
    by (auto simp: playAndAnalyze_def)
qed

lemma mainLoop_plays:
  assumes "\<forall>file\<in>set files. finishes w file"
  shows "\<exists>evs. mainLoop w files = Some evs \<and> played evs = filter (decodes w) files \<and>
           logged evs = filter (\<lambda>file. \<not> decodes w file) files"
  using assms
proof (induction files)
  case Nil
  then show ?case by simp
next
  case (Cons "file" files)
  then obtain rest where rest: "mainLoop w files = Some rest"
    "played rest = filter (decodes w) files"
    "logged rest = filter (\<lambda>file. \<not> decodes w file) files"
    by auto
  show ?case
  proof (cases "decodes w file")
    case True
    moreover from Cons(2) have "finishes w file" by simp
    ultimately obtain evs where "playAndAnalyze w file = Some (Play file # evs, None)"
      "played evs = []" "logged evs = []"
      using playAndAnalyze_plays by blast
    with rest True show ?thesis by (simp add: played_append logged_append)
  next
    case False
    then obtain e where "playAndAnalyze w file = Some ([], Some e)"
      using playAndAnalyze_fails by blast
    with rest False show ?thesis by simp
  qed
qed

section \<open>Lemmas about the analysis of a block\<close>

lemma FFT_zeros: "FFT (replicate n 0) = replicate n 0"
  by (auto simp: FFT_def list_eq_iff_nth_eq intro!: sum.neutral)

lemma analyzeBlock_spectrum:
  assumes "2 \<le> length block" "numFrequencyBands \<le> length (spectrum a)"
  shows "\<exists>spec1.
      bandsLoop numFrequencyBands
        (binsPerBand numFrequencyBands (length (magnitudes (FFT (complexSamples block))))) 0
        (magnitudes (FFT (complexSamples block))) (map (\<lambda>_. 0) (spectrum a)) = Inr spec1 \<and>
      analyzeBlock a block =
        Inr (a\<lparr>buffer_sp := copy (buffer_sp a) block, spectrum := smoothLoop 0 spec1\<rparr>)"
proof -
  let ?mags = "magnitudes (FFT (complexSamples block))"
  from assms(1) have m: "length ?mags \<noteq> 0"
    by (simp add: magnitudes_def length_FFT complexSamples_def)
  from assms(2) have "numFrequencyBands \<le> length (map (\<lambda>_. 0::real) (spectrum a))" by simp
  from bandsLoop_values [OF this, of "binsPerBand numFrequencyBands (length ?mags)" 0 ?mags]
  obtain spec1 where "bandsLoop numFrequencyBands (binsPerBand numFrequencyBands (length ?mags)) 0
      ?mags (map (\<lambda>_. 0) (spectrum a)) = Inr spec1"
    by blast
  with m show ?thesis
    by (simp add: analyzeBlock_def Let_def)
qed

lemma bandsLoop_silence:
  "bandsLoop 30 1 0 [0] (replicate n 0) = Inr (replicate n 0)" if "30 \<le> n"
proof -
  from that have "30 \<le> length (replicate n (0::real))" by simp
  from bandsLoop_values [OF this, of 1 0 "[0]"] obtain spec' where
    s: "bandsLoop 30 1 0 [0] (replicate n 0) = Inr spec'" "length spec' = n"
      "\<forall>k<n. spec' ! k =
         (if k < 30 \<and> bandBins (k * 1) ((k + 1) * 1) (length [0::real]) \<noteq> []
          then bandValue [0] (bandBins (k * 1) ((k + 1) * 1) (length [0::real]))
          else replicate n 0 ! k)"
    by auto
  have v: "bandValue [0] [0] = 0"
    by (simp add: bandValue_def Let_def log10_millionth)
  have "spec' ! k = 0" if k: "k < n" for k
  proof (cases "k = 0")
    case True
    have "bandBins 0 1 (Suc 0) = [0]" by (simp add: bandBins_eq)
    with s(3) k True v show ?thesis by simp
  next
    case False
    then have "bandBins k (Suc k) (Suc 0) = []" by (simp add: bandBins_eq)
    with s(3) k show ?thesis by simp
  qed
  with s(2) have "spec' = replicate n 0"
    by (simp add: list_eq_iff_nth_eq)
  with s(1) show ?thesis by simp
qed

section \<open>The claims\<close>

text \<open>
  C1: on a pull in which the upstream writes fewer frames than the slice holds, the
  transform (the sum for the RMS, the input of the transform and the divisor of the
  dominant frequency) is to work on the \<open>n\<close> frames written. \<^verbatim>\<open>Stream\<close> of \<^verbatim>\<open>main.go\<close>
  never reads \<open>n\<close>: it ranges over the whole slice and divides by \<^verbatim>\<open>len(samples)\<close>.
  Here the upstream writes the one frame \<open>(1, 0)\<close> into a slice of four frames whose
  third frame still holds \<open>(-1, 0)\<close> from an earlier pull. The analyzer publishes the RMS
  \<open>sqrt (1/2)\<close> of all four frames and the frequency \<open>1 * 44100 / 4 = 11025\<close>, where the
  one frame written has the RMS \<open>1\<close> and the frequency \<open>0\<close>.
\<close>

theorem partial_block_is_analysed_with_the_stale_tail:
  "(let a = \<lparr>streamer = (\<lambda>s. (s[0 := (1, 0)], 1, True)), buffer = replicate bufferSize (0, 0),
              rms = Fin 0, freq = Fin 0\<rparr>
    in case Stream a [(0, 0), (0, 0), (- 1, 0), (0, 0)] of (a', samples, n, ok) \<Rightarrow>
         n = 1 \<and> ok \<and> length samples = 4 \<and>
         rms a' = Fin (sqrt (1 / 2)) \<and> freq a' = Fin 11025 \<and>
         blockRMS (take 1 samples) = Fin 1 \<and> dominantFreq sampleRate (take 1 samples) = Fin 0)"
proof -
  have cs: "complexSamples [(1, 0), (0, 0), (- 1, 0), (0, 0)] = [1, 0, - 1, 0]"
    by (simp add: complexSamples_def complex_eq_iff)
  have "length (FFT [1, 0, - 1, 0]) div 2 = 2"
    by (simp add: length_FFT)
  then have m: "magnitudes (FFT (complexSamples [(1, 0), (0, 0), (- 1, 0), (0, 0)])) = [0, 2]"
    unfolding magnitudes_def cs by (simp add: FFT_4_half)
  have m1: "magnitudes (FFT (complexSamples [(1, 0)])) = []"
    by (simp add: magnitudes_def complexSamples_def length_FFT)
  show ?thesis
    by (simp add: Stream_def Let_def blockRMS_def dominantFreq_def m m1 fdiv_def sampleRate_def)
qed

text \<open>
  C2, as stated, asks that every magnitude bin lies in exactly one band. With the
  constants of the program (\<open>2048 / 2 = 1024\<close> bins, 30 bands, 34 bins per band) bin 1020
  is a bin of the block and no band reads it.
\<close>

theorem band_partition_skips_bin_1020:
  "bufferSize_sp div 2 = 1024 \<and> 1020 < (1024::nat) \<and>
   1020 \<notin> set (concat (map (\<lambda>i. bandBins (i * binsPerBand numFrequencyBands 1024)
                                  ((i + 1) * binsPerBand numFrequencyBands 1024) 1024)
                           [0..<numFrequencyBands]))"
  unfolding band_bins_partition
  by (simp add: binsPerBand_def numFrequencyBands_def bufferSize_sp_def)

text \<open>
  C2, amended: band \<open>i\<close> reads the bins from \<open>i * binsPerBand\<close> up to, and without,
  \<open>min ((i + 1) * binsPerBand) M\<close>, each of them once and in order; its sum and its count
  are over exactly these bins. Over all bands every bin below \<open>min (B * binsPerBand) M\<close> is
  read exactly once and no other bin is read: the last band takes no remainder. All \<open>M\<close>
  bins are covered exactly when \<open>M \<le> B\<close> or \<open>B\<close> divides \<open>M\<close>.
\<close>

theorem band_partition_covers_a_prefix:
  "concat (map (\<lambda>i. bandBins (i * binsPerBand B M) ((i + 1) * binsPerBand B M) M) [0..<B])
     = [0..<min (B * binsPerBand B M) M]
   \<and> bandLoop mags j hi bandSum binCount =
       Inr (bandSum + (\<Sum>k\<leftarrow>bandBins j hi (length mags). 20 * log 10 (mags ! k + 1 / 1000000)),
            binCount + length (bandBins j hi (length mags)))
   \<and> (0 < B \<longrightarrow> (min (B * binsPerBand B M) M = M \<longleftrightarrow> M \<le> B \<or> B dvd M))"
proof -
  have "min (B * binsPerBand B M) M = M \<longleftrightarrow> M \<le> B \<or> B dvd M" if B: "0 < B"
  proof (cases "M < B")
    case True
    then show ?thesis by (simp add: binsPerBand_def)
  next
    case False
    then have "M div B \<noteq> 0" using B by (simp add: div_eq_0_iff)
    then have bpb: "binsPerBand B M = M div B" by (simp add: binsPerBand_def Let_def)
    have le: "B * (M div B) \<le> M" by simp
    have "B * (M div B) = M \<longleftrightarrow> B dvd M"
      by (metis dvd_mult_div_cancel dvd_triv_left)
    moreover have "M \<le> B \<longrightarrow> B dvd M" using False by auto
    ultimately show ?thesis using le by (auto simp: bpb min_def)
  qed
  then show ?thesis
    using band_bins_partition [of "binsPerBand B M" M B] bandLoop_eq [of mags j hi bandSum binCount]
    by blast
qed

text \<open>
  With 30 bands, 1020 bins are covered whole, and of 1024 bins the first 1020; the band
  \<open>0\<close> of two bins with one bin per band reads bin \<open>0\<close> alone.
\<close>

theorem band_partition_covers_a_prefix_witness:
  "concat (map (\<lambda>i. bandBins (i * binsPerBand 30 1020) ((i + 1) * binsPerBand 30 1020) 1020) [0..<30])
     = [0..<1020]
   \<and> concat (map (\<lambda>i. bandBins (i * binsPerBand 30 1024) ((i + 1) * binsPerBand 30 1024) 1024) [0..<30])
     = [0..<1020]
   \<and> bandLoop [1, 3] 0 1 0 0 = Inr (20 * log 10 (1 + 1 / 1000000), 1)"
proof -
  have a: "min (30 * binsPerBand 30 1020) 1020 = 1020" "min (30 * binsPerBand 30 1024) 1024 = 1020"
    by (simp_all add: binsPerBand_def)
  have b: "bandBins 0 1 (length [1, 3::real]) = [0]"
    by (simp add: bandBins_eq)
  show ?thesis
    using band_partition_covers_a_prefix [of 30 1020 "[1, 3]" 0 1 0 0]
      band_partition_covers_a_prefix [of 30 1024 "[1, 3]" 0 1 0 0]
    unfolding a b by simp
qed

text \<open>
  C3: \<^verbatim>\<open>Stream\<close> returns the \<open>n\<close> and the \<open>ok\<close> of the wrapped streamer and leaves in the
  slice what the wrapped streamer left there. In \<^verbatim>\<open>main.go\<close> this holds for every call.
  The analyzer with the spectrum returns whenever the upstream keeps the contract of
  \<^verbatim>\<open>beep.Streamer\<close>, \<open>0 \<le> n \<le> len(samples)\<close>, and the spectrum has its
  \<^verbatim>\<open>numFrequencyBands\<close> entries, and whatever it returns is the result of the upstream.
\<close>

theorem stream_forwards_the_upstream_result:
  assumes "streamer_sp b s0 = (samples, n, ok)"
    and "0 \<le> n" and "n \<le> int (length samples)"
    and "numFrequencyBands \<le> length (spectrum b)"
  shows "snd (Stream a s0) = streamer a s0
    \<and> (\<exists>b'. Stream_sp b s0 = Inr (b', samples, n, ok))
    \<and> (\<forall>c r. Stream_sp c s0 = Inr r \<longrightarrow> snd r = streamer_sp c s0)"
proof -
  have "snd (Stream a s0) = streamer a s0"
    by (simp add: Stream_def split: prod.splits)
  moreover have "\<exists>b'. Stream_sp b s0 = Inr (b', samples, n, ok)"
    using Stream_sp_returns [OF assms] by blast
  ultimately show ?thesis
    using Stream_sp_snd by blast
qed

text \<open>An upstream that fills a slice of three frames: both analyzers pass on \<open>(3, true)\<close>.\<close>

theorem stream_forwards_the_upstream_result_witness:
  "snd (Stream \<lparr>streamer = (\<lambda>s. (map (\<lambda>_. (1 / 2, 1 / 4)) s, int (length s), True)),
                 buffer = replicate bufferSize (0, 0), rms = Fin 0, freq = Fin 0\<rparr>
          (replicate 3 (0, 0)))
     = (replicate 3 (1 / 2, 1 / 4), 3, True)
   \<and> (\<exists>b'. Stream_sp \<lparr>streamer_sp = (\<lambda>s. (map (\<lambda>_. (1 / 2, 1 / 4)) s, int (length s), True)),
                        buffer_sp = replicate bufferSize_sp (0, 0),
                        spectrum = replicate numFrequencyBands 0\<rparr>
                 (replicate 3 (0, 0))
            = Inr (b', replicate 3 (1 / 2, 1 / 4), 3, True))"
  using stream_forwards_the_upstream_result
    [of "\<lparr>streamer_sp = (\<lambda>s. (map (\<lambda>_. (1 / 2, 1 / 4)) s, int (length s), True)),
          buffer_sp = replicate bufferSize_sp (0, 0), spectrum = replicate numFrequencyBands 0\<rparr>"
      "replicate 3 (0, 0)" "replicate 3 (1 / 2, 1 / 4)" 3 True
      "\<lparr>streamer = (\<lambda>s. (map (\<lambda>_. (1 / 2, 1 / 4)) s, int (length s), True)),
        buffer = replicate bufferSize (0, 0), rms = Fin 0, freq = Fin 0\<rparr>"]
  by simp

text \<open>
  C4: when the upstream returns \<open>ok = false\<close>, \<^verbatim>\<open>Stream\<close> returns at once: the analyzer,
  and with it \<open>rms\<close>, \<open>freq\<close> and the spectrum, is the one from before the call.
\<close>

theorem stream_skips_the_transform_when_not_ok:
  "(streamer a s0 = (samples, n, False) \<longrightarrow>
      Stream a s0 = (a, samples, n, False) \<and> getAnalysis (fst (Stream a s0)) = getAnalysis a)
   \<and> (streamer_sp b s0 = (samples', n', False) \<longrightarrow>
      Stream_sp b s0 = Inr (b, samples', n', False))"
  by (simp add: Stream_not_ok Stream_sp_not_ok)

text \<open>A drained upstream: the features \<open>1/4\<close>, \<open>440\<close> and the bands \<open>1/3\<close> stay.\<close>

theorem stream_skips_the_transform_when_not_ok_witness:
  "Stream \<lparr>streamer = (\<lambda>s. (s, 0, False)), buffer = replicate bufferSize (0, 0),
           rms = Fin (1 / 4), freq = Fin 440\<rparr> [(1, 1), (1, 1)]
     = (\<lparr>streamer = (\<lambda>s. (s, 0, False)), buffer = replicate bufferSize (0, 0),
           rms = Fin (1 / 4), freq = Fin 440\<rparr>, [(1, 1), (1, 1)], 0, False)
   \<and> Stream_sp \<lparr>streamer_sp = (\<lambda>s. (s, 0, False)), buffer_sp = replicate bufferSize_sp (0, 0),
           spectrum = replicate numFrequencyBands (1 / 3)\<rparr> [(1, 1), (1, 1)]
     = Inr (\<lparr>streamer_sp = (\<lambda>s. (s, 0, False)), buffer_sp = replicate bufferSize_sp (0, 0),
           spectrum = replicate numFrequencyBands (1 / 3)\<rparr>, [(1, 1), (1, 1)], 0, False)"
  using stream_skips_the_transform_when_not_ok
    [of "\<lparr>streamer = (\<lambda>s. (s, 0, False)), buffer = replicate bufferSize (0, 0),
           rms = Fin (1 / 4), freq = Fin 440\<rparr>" "[(1, 1), (1, 1)]" "[(1, 1), (1, 1)]" 0
        "\<lparr>streamer_sp = (\<lambda>s. (s, 0, False)), buffer_sp = replicate bufferSize_sp (0, 0),
           spectrum = replicate numFrequencyBands (1 / 3)\<rparr>" "[(1, 1), (1, 1)]" 0]
  by simp

text \<open>
  C5, as stated, covers a silent block of any size. For the block of size \<open>0\<close> both
  divisions of \<^verbatim>\<open>Stream\<close> are \<^verbatim>\<open>0 / 0\<close>: the RMS and the frequency are NaN, not \<open>0\<close>.
\<close>

theorem silent_empty_block_gives_nan:
  "Stream \<lparr>streamer = (\<lambda>s. (s, int (length s), True)), buffer = replicate bufferSize (0, 0),
           rms = Fin 0, freq = Fin 0\<rparr> []
     = (\<lparr>streamer = (\<lambda>s. (s, int (length s), True)), buffer = replicate bufferSize (0, 0),
          rms = NaN, freq = NaN\<rparr>, [], 0, True)"
  by (simp add: Stream_def blockRMS_empty dominantFreq_empty copy_def)

text \<open>
  C5, amended: for every silent block that is not empty, and for every sample rate, the
  RMS is \<open>0\<close> and the dominant frequency is \<open>0\<close>. (Silence of the left channel, the one
  that is analysed, is enough.)
\<close>

theorem silent_block_has_rms_and_frequency_zero:
  assumes "streamer a s0 = (samples, n, True)"
    and "samples \<noteq> []"
    and "\<forall>x\<in>set samples. fst x = 0"
  shows "rms (fst (Stream a s0)) = Fin 0 \<and> freq (fst (Stream a s0)) = Fin 0
    \<and> (\<forall>sr. dominantFreq sr samples = Fin 0)"
  using assms by (simp add: Stream_ok blockRMS_silent dominantFreq_silent)

text \<open>Three silent frames, at 44100 Hz in \<^verbatim>\<open>Stream\<close> and at 48000 Hz.\<close>

theorem silent_block_has_rms_and_frequency_zero_witness:
  "rms (fst (Stream \<lparr>streamer = (\<lambda>s. (map (\<lambda>_. (0, 0)) s, int (length s), True)),
                     buffer = replicate bufferSize (0, 0), rms = Fin (1 / 2), freq = Fin 440\<rparr>
              [(1, 1), (1 / 2, 1 / 2), (1, 0)])) = Fin 0
   \<and> freq (fst (Stream \<lparr>streamer = (\<lambda>s. (map (\<lambda>_. (0, 0)) s, int (length s), True)),
                     buffer = replicate bufferSize (0, 0), rms = Fin (1 / 2), freq = Fin 440\<rparr>
              [(1, 1), (1 / 2, 1 / 2), (1, 0)])) = Fin 0
   \<and> dominantFreq 48000 [(0, 0), (0, 0), (0, 0)] = Fin 0"
  using silent_block_has_rms_and_frequency_zero
    [of "\<lparr>streamer = (\<lambda>s. (map (\<lambda>_. (0, 0)) s, int (length s), True)),
          buffer = replicate bufferSize (0, 0), rms = Fin (1 / 2), freq = Fin 440\<rparr>"
      "[(1, 1), (1 / 2, 1 / 2), (1, 0)]" "[(0, 0), (0, 0), (0, 0)]" 3]
  by simp

text \<open>
  C7, as stated, blends band \<open>i\<close> with the previous value of its left neighbour. Neither
  reading of "previous" is what the loop does. The value of the neighbour before the
  smoothing pass: on the bands \<open>3, 0, 3\<close> that gives \<open>(3 + 0.5 * 0) / 1.5 = 2\<close> for band
  \<open>2\<close>, and the loop gives \<open>7/3\<close>. The value of the neighbour in the block before: with
  all bands at \<open>9\<close> from the block before, a silent block would give band \<open>1\<close> the value
  \<open>(0 + 0.5 * 9) / 1.5 = 3\<close>, and the analyzer publishes \<open>0\<close> for every band.
\<close>

theorem smoothing_is_not_fed_by_previous_values:
  "smoothLoop 0 [3, 0, 3] ! 2 \<noteq> ([3, 0, 3] ! 2 + 0.5 * [3, 0, 3] ! 1) / 1.5
   \<and> (case analyzeBlock \<lparr>streamer_sp = (\<lambda>s. (s, int (length s), True)), buffer_sp = [],
                            spectrum = replicate numFrequencyBands 9\<rparr> [(0, 0), (0, 0)] of
         Inl e \<Rightarrow> [] | Inr a' \<Rightarrow> spectrum a') = replicate numFrequencyBands 0"
proof -
  have "smoothLoop 0 [3, 0, 3] = [3, 1, 7 / 3]"
    by (simp add: smoothLoop_first smoothLoop_step smoothLoop_stop)
  then have a: "smoothLoop 0 [3, 0, 3] ! 2 \<noteq> ([3, 0, 3] ! 2 + 0.5 * [3, 0, 3] ! 1) / 1.5"
    by simp
  have cs: "complexSamples [(0, 0), (0, 0)] = replicate 2 0"
    by (simp add: complexSamples_def complex_eq_iff numeral_2_eq_2)
  have m: "magnitudes (FFT (complexSamples [(0, 0), (0, 0)])) = [0]"
    unfolding cs FFT_zeros by (simp add: magnitudes_def numeral_2_eq_2)
  have bl: "bandsLoop 30 (Suc 0) 0 [0] (replicate 30 0) = Inr (replicate 30 0)"
    using bandsLoop_silence [of 30] by simp
  have "analyzeBlock \<lparr>streamer_sp = (\<lambda>s. (s, int (length s), True)), buffer_sp = [],
                            spectrum = replicate numFrequencyBands 9\<rparr> [(0, 0), (0, 0)]
     = Inr \<lparr>streamer_sp = (\<lambda>s. (s, int (length s), True)), buffer_sp = [],
             spectrum = replicate numFrequencyBands 0\<rparr>"
    by (simp add: analyzeBlock_def Let_def m binsPerBand_def numFrequencyBands_def
        map_replicate_const bl smoothLoop_zeros copy_def)
  with a show ?thesis by simp
qed

text \<open>
  C7, amended: the smoothing runs once over the bands of the block, from left to right
  and in place. Band \<open>0\<close> stays as it is, and for every \<open>i > 0\<close> the result is
  \<open>(new\<^sub>i + 0.5 * s\<^sub>i\<^sub>-\<^sub>1) / 1.5\<close> where \<open>new\<^sub>i\<close> is the value of the band before the pass and
  \<open>s\<^sub>i\<^sub>-\<^sub>1\<close> is the result of the same pass for the left neighbour. The pass is applied to
  the bands computed from a spectrum that was reset to \<open>0\<close>, so what the spectrum held
  from the block before has no part in the result.
\<close>

theorem smoothing_blends_with_the_smoothed_left_neighbour:
  "length (smoothLoop 0 spec) = length spec
   \<and> (spec \<noteq> [] \<longrightarrow> smoothLoop 0 spec ! 0 = spec ! 0)
   \<and> (\<forall>k. 0 < k \<and> k < length spec \<longrightarrow>
          smoothLoop 0 spec ! k = (spec ! k + smoothLoop 0 spec ! (k - 1) * 0.5) / 1.5)
   \<and> (2 \<le> length block \<and> numFrequencyBands \<le> length (spectrum a) \<longrightarrow>
        (\<exists>spec1.
           bandsLoop numFrequencyBands
             (binsPerBand numFrequencyBands (length (magnitudes (FFT (complexSamples block))))) 0
             (magnitudes (FFT (complexSamples block))) (map (\<lambda>_. 0) (spectrum a)) = Inr spec1 \<and>
           analyzeBlock a block =
             Inr (a\<lparr>buffer_sp := copy (buffer_sp a) block, spectrum := smoothLoop 0 spec1\<rparr>)))
   \<and> (2 \<le> length block \<and> length sp = length (spectrum a) \<longrightarrow>
        analyzeBlock (a\<lparr>spectrum := sp\<rparr>) block = analyzeBlock a block)"
proof -
  have first: "smoothLoop 0 spec ! 0 = spec ! 0" if "spec \<noteq> []"
  proof -
    from that have "smoothLoop 0 spec = smoothLoop 1 spec" by (simp add: smoothLoop_first)
    then show ?thesis by (simp add: smoothLoop_below)
  qed
  have rest: "smoothLoop 0 spec ! k = (spec ! k + smoothLoop 0 spec ! (k - 1) * 0.5) / 1.5"
    if "0 < k" "k < length spec" for k
  proof -
    from that have "0 < length spec" by linarith
    then have "smoothLoop 0 spec = smoothLoop 1 spec" by (rule smoothLoop_first)
    moreover from that have "smoothLoop 1 spec ! k = (spec ! k + smoothLoop 1 spec ! (k - 1) * 0.5) / 1.5"
      by (intro smoothLoop_rec) simp_all
    ultimately show ?thesis by simp
  qed
  from first rest show ?thesis
    using analyzeBlock_spectrum [of block a] analyzeBlock_forgets [of block sp a]
    by (simp add: length_smoothLoop)
qed

text \<open>
  The bands \<open>3, 0, 3\<close> become \<open>3\<close>, \<open>(0 + 3 * 0.5) / 1.5\<close> and \<open>(3 + 1 * 0.5) / 1.5\<close>; a
  block of two frames is analysed alike after a spectrum of nines and after one of
  zeros.
\<close>

theorem smoothing_blends_with_the_smoothed_left_neighbour_witness:
  "smoothLoop 0 [3, 0, 3] ! 0 = 3
   \<and> smoothLoop 0 [3, 0, 3] ! 1 = (0 + 3 * 0.5) / 1.5
   \<and> smoothLoop 0 [3, 0, 3] ! 2 = (3 + 1 * 0.5) / 1.5
   \<and> analyzeBlock \<lparr>streamer_sp = (\<lambda>s. (s, int (length s), True)), buffer_sp = [],
                    spectrum = replicate numFrequencyBands 9\<rparr> [(1, 0), (0, 0)]
      = analyzeBlock \<lparr>streamer_sp = (\<lambda>s. (s, int (length s), True)), buffer_sp = [],
                    spectrum = replicate numFrequencyBands 0\<rparr> [(1, 0), (0, 0)]"
proof -
  let ?a = "\<lparr>streamer_sp = (\<lambda>s. (s, int (length s), True)), buffer_sp = [],
             spectrum = replicate numFrequencyBands 0\<rparr>"
  note t = smoothing_blends_with_the_smoothed_left_neighbour
    [of "[3, 0, 3]" "[(1, 0), (0, 0)]" ?a "replicate numFrequencyBands 9"]
  from t have n0: "smoothLoop 0 [3, 0, 3] ! 0 = (3::real)" by simp
  from t have "\<forall>k. 0 < k \<and> k < length [3, 0, 3::real] \<longrightarrow>
      smoothLoop 0 [3, 0, 3] ! k = ([3, 0, 3] ! k + smoothLoop 0 [3, 0, 3] ! (k - 1) * 0.5) / 1.5"
    by blast
  then have "smoothLoop 0 [3, 0, 3] ! 1 = ([3, 0, 3] ! 1 + smoothLoop 0 [3, 0, 3] ! (1 - 1) * 0.5) / 1.5"
    and "smoothLoop 0 [3, 0, 3] ! 2 = ([3, 0, 3] ! 2 + smoothLoop 0 [3, 0, 3] ! (2 - 1) * 0.5) / 1.5"
    by simp_all
  with n0 have "smoothLoop 0 [3, 0, 3] ! 1 = (0 + 3 * 0.5) / 1.5"
    and "smoothLoop 0 [3, 0, 3] ! 2 = (3 + 1 * 0.5) / 1.5"
    by simp_all
  moreover from t have "analyzeBlock (?a\<lparr>spectrum := replicate numFrequencyBands 9\<rparr>) [(1, 0), (0, 0)]
      = analyzeBlock ?a [(1, 0), (0, 0)]"
    by simp
  ultimately show ?thesis using n0 by simp
qed

text \<open>
  C9: a file that does not open or decode is logged and the loop goes on with the next
  file. When the speaker and the scan of the directory succeed and every track that
  starts to play signals its end, \<^verbatim>\<open>main\<close> reaches its end, the tracks handed to the
  speaker are, in the order of the playlist, exactly the files that open and decode, and
  the files with a logged error are exactly the others.
\<close>

theorem playlist_continues_after_a_failed_track:
  assumes "speakerInit w = None"
    and "scanMusicDir w = Inr files"
    and "\<forall>file\<in>set files. finishes w file"
  shows "\<exists>evs. main w = Some (Inr evs)
    \<and> played evs = filter (decodes w) files
    \<and> logged evs = filter (\<lambda>file. \<not> decodes w file) files"
proof -
  from mainLoop_plays [OF assms(3)] obtain evs where
    "mainLoop w files = Some evs" "played evs = filter (decodes w) files"
    "logged evs = filter (\<lambda>file. \<not> decodes w file) files"
    by blast
  with assms(1,2) show ?thesis
    by (simp add: main_def played_append logged_append)
qed

text \<open>A playlist of three files whose second file does not decode: the first and the third play.\<close>

theorem playlist_continues_after_a_failed_track_witness:
  "\<exists>evs. main \<lparr>speakerInit = None, scanMusicDir = Inr [''a.mp3'', ''b.mp3'', ''c.mp3''],
               osOpen = Inr,
               mp3Decode = (\<lambda>f. if f = ''b.mp3'' then Inl ''bad frame'' else Inr f),
               signals = (\<lambda>s. [Tick, Done])\<rparr> = Some (Inr evs)
     \<and> played evs = [''a.mp3'', ''c.mp3''] \<and> logged evs = [''b.mp3'']"
  using playlist_continues_after_a_failed_track
    [of "\<lparr>speakerInit = None, scanMusicDir = Inr [''a.mp3'', ''b.mp3'', ''c.mp3''],
          osOpen = Inr,
          mp3Decode = (\<lambda>f. if f = ''b.mp3'' then Inl ''bad frame'' else Inr f),
          signals = (\<lambda>s. [Tick, Done])\<rparr>" "[''a.mp3'', ''b.mp3'', ''c.mp3'']"]
  by (simp add: finishes_def decodes_def)

text \<open>
  C10: with fewer magnitude bins than bands \<^verbatim>\<open>binsPerBand\<close> is \<open>1\<close>; the inner loop reads
  \<^verbatim>\<open>magnitudes[j]\<close> under the guard \<^verbatim>\<open>j < len(magnitudes)\<close> and never panics; with a
  spectrum of at least as many entries as bands the band loop returns for magnitudes of
  any length, and a band whose range of bins is empty keeps the \<open>0\<close> of the reset at the
  end of the band loop. The analysis of a block of any size returns.
\<close>

theorem band_mapping_never_indexes_out_of_range:
  assumes "B \<le> length spec"
  shows "(M < B \<longrightarrow> binsPerBand B M = 1)
    \<and> (\<exists>r. bandLoop mags j hi bandSum binCount = Inr r)
    \<and> (\<exists>spec'. bandsLoop B (binsPerBand B (length mags)) 0 mags (map (\<lambda>_. 0) spec) = Inr spec'
          \<and> length spec' = length spec
          \<and> (\<forall>k<B. length mags \<le> k * binsPerBand B (length mags) \<longrightarrow> spec' ! k = 0))
    \<and> (numFrequencyBands \<le> length (spectrum a) \<longrightarrow> (\<exists>a'. analyzeBlock a block = Inr a'))"
proof -
  let ?bpb = "binsPerBand B (length mags)"
  from assms have "B \<le> length (map (\<lambda>_. 0::real) spec)" by simp
  from bandsLoop_values [OF this, of ?bpb 0 mags] obtain spec' where
    s: "bandsLoop B ?bpb 0 mags (map (\<lambda>_. 0) spec) = Inr spec'" "length spec' = length spec"
      "\<forall>k<length spec. spec' ! k =
         (if k < B \<and> bandBins (k * ?bpb) ((k + 1) * ?bpb) (length mags) \<noteq> []
          then bandValue mags (bandBins (k * ?bpb) ((k + 1) * ?bpb) (length mags))
          else map (\<lambda>_. 0) spec ! k)"
    by auto
  have "spec' ! k = 0" if k: "k < B" "length mags \<le> k * ?bpb" for k
  proof -
    from k(2) have "bandBins (k * ?bpb) ((k + 1) * ?bpb) (length mags) = []"
      using bandBins_empty_iff [OF binsPerBand_pos, of k B "length mags" "length mags"] by blast
    moreover from k(1) assms have "k < length spec" by simp
    ultimately show ?thesis using s(3) by simp
  qed
  with s(1,2) have "\<exists>spec'. bandsLoop B ?bpb 0 mags (map (\<lambda>_. 0) spec) = Inr spec'
          \<and> length spec' = length spec
          \<and> (\<forall>k<B. length mags \<le> k * ?bpb \<longrightarrow> spec' ! k = 0)"
    by blast
  moreover have "\<exists>r. bandLoop mags j hi bandSum binCount = Inr r"
    by (simp add: bandLoop_eq)
  moreover have "numFrequencyBands \<le> length (spectrum a) \<longrightarrow> (\<exists>a'. analyzeBlock a block = Inr a')"
    using analyzeBlock_returns [of a block] by blast
  ultimately show ?thesis
    by (simp add: binsPerBand_small)
qed

text \<open>Two bins for 30 bands: one bin per band, the bands \<open>2\<close> to \<open>29\<close> stay \<open>0\<close>.\<close>

theorem band_mapping_never_indexes_out_of_range_witness:
  "binsPerBand 30 2 = 1
   \<and> (\<exists>spec'. bandsLoop 30 (binsPerBand 30 2) 0 [1, 1] (replicate 30 0) = Inr spec'
         \<and> length spec' = 30 \<and> spec' ! 2 = 0 \<and> spec' ! 29 = 0)
   \<and> (\<exists>a'. analyzeBlock \<lparr>streamer_sp = (\<lambda>s. (s, int (length s), True)), buffer_sp = [],
                             spectrum = replicate numFrequencyBands 0\<rparr>
                [(1, 0), (0, 0), (1, 0), (0, 0)] = Inr a')"
proof -
  let ?a = "\<lparr>streamer_sp = (\<lambda>s. (s, int (length s), True)), buffer_sp = [],
             spectrum = replicate numFrequencyBands 0\<rparr>"
  have len: "30 \<le> length (replicate 30 (0::real))" by simp
  note t = band_mapping_never_indexes_out_of_range
    [OF len, where M = 2 and mags = "[1, 1]" and a = ?a
      and block = "[(1, 0), (0, 0), (1, 0), (0, 0)]"]
  have b: "binsPerBand 30 2 = 1" by (simp add: binsPerBand_def)
  from t obtain spec' where
    s: "bandsLoop 30 (binsPerBand 30 (length [1, 1::real])) 0 [1, 1]
          (map (\<lambda>_. 0) (replicate 30 (0::real))) = Inr spec'"
      "length spec' = length (replicate 30 (0::real))"
      "\<forall>k<30. length [1, 1::real] \<le> k * binsPerBand 30 (length [1, 1::real]) \<longrightarrow> spec' ! k = 0"
    by blast
  have b': "binsPerBand 30 (Suc (Suc 0)) = 1" by (simp add: binsPerBand_def)
  have z: "spec' ! 2 = 0" "spec' ! 29 = 0"
    using s(3) [rule_format, of 2] s(3) [rule_format, of 29] by (simp_all add: b')
  from t have "numFrequencyBands \<le> length (spectrum ?a) \<longrightarrow>
      (\<exists>a'. analyzeBlock ?a [(1, 0), (0, 0), (1, 0), (0, 0)] = Inr a')"
    by blast
  then have "\<exists>a'. analyzeBlock ?a [(1, 0), (0, 0), (1, 0), (0, 0)] = Inr a'"
    by simp
  moreover from s(1,2) z have "\<exists>spec'. bandsLoop 30 (binsPerBand 30 2) 0 [1, 1] (replicate 30 0) = Inr spec'
         \<and> length spec' = 30 \<and> spec' ! 2 = 0 \<and> spec' ! 29 = 0"
    by (simp add: map_replicate_const b b')
  ultimately show ?thesis using b by blast
qed

end
